theory Spec2Isabelle
  imports Main
begin

section \<open>The LRU cache of \<open>src/cache.ts\<close> and the font resolver's use of it\<close>

subsection \<open>JavaScript values the cache depends on\<close>

text \<open>
  The cache is generic in its key type \<open>K\<close>. A JavaScript \<open>Map\<close> accepts every value as a
  key, the value \<open>undefined\<close> included, and \<open>LRUCache.set\<close> compares a key with
  \<open>undefined\<close>. A key is therefore either \<open>undefined\<close> or any other value.
\<close>

datatype 'k key = Undefined | Key 'k

text \<open>
  The numbers the cache computes with are clock readings (\<open>Date.now()\<close>, whole
  milliseconds), the time to live and their sum. The time to live defaults to
  \<open>Infinity\<close>, so a number is an integer or \<open>Infinity\<close>. Fractions, \<open>NaN\<close> and
  \<open>-Infinity\<close> are left out, and integers are unbounded (the source's doubles are exact
  only below \<open>2^53\<close>).
\<close>

datatype number = Finite int | Infinity

text \<open>\<open>Date.now() + this.ttl\<close>\<close>

fun now_plus :: "int \<Rightarrow> number \<Rightarrow> number" where
  "now_plus n (Finite d) = Finite (n + d)"
| "now_plus n Infinity = Infinity"

text \<open>\<open>Date.now() > entry.expiresAt\<close>\<close>

fun now_gt :: "int \<Rightarrow> number \<Rightarrow> bool" where
  "now_gt n (Finite e) = (e < n)"
| "now_gt n Infinity = False"

subsection \<open>The built-in \<open>Map\<close>: an association list in insertion order\<close>

text \<open>
  A \<open>Map\<close> iterates its keys in insertion order, and the cache relies on that order: the
  first key is the least recently used one. The model is the list of the pairs, oldest
  first. A \<open>Map\<close> holds a key at most once; \<open>Map_ok\<close> says so. Keys are compared
  with HOL's equality (JavaScript's SameValueZero on the values modelled here).
\<close>

definition Map_ok :: "('a \<times> 'b) list \<Rightarrow> bool" where
  "Map_ok m = distinct (map fst m)"

text \<open>\<open>m.get(k)\<close>: the entry, or \<open>None\<close> for \<open>undefined\<close>.\<close>

fun Map_get :: "('a \<times> 'b) list \<Rightarrow> 'a \<Rightarrow> 'b option" where
  "Map_get [] k = None"
| "Map_get ((k', e) # m) k = (if k' = k then Some e else Map_get m k)"

text \<open>\<open>m.has(k)\<close>\<close>

fun Map_has :: "('a \<times> 'b) list \<Rightarrow> 'a \<Rightarrow> bool" where
  "Map_has [] k = False"
| "Map_has ((k', e) # m) k = (if k' = k then True else Map_has m k)"

text \<open>\<open>m.delete(k)\<close>: whether the key was there, and the map without it.\<close>

fun Map_remove :: "('a \<times> 'b) list \<Rightarrow> 'a \<Rightarrow> ('a \<times> 'b) list" where
  "Map_remove [] k = []"
| "Map_remove ((k', e) # m) k = (if k' = k then Map_remove m k else (k', e) # Map_remove m k)"

definition Map_delete :: "('a \<times> 'b) list \<Rightarrow> 'a \<Rightarrow> bool \<times> ('a \<times> 'b) list" where
  "Map_delete m k = (Map_has m k, Map_remove m k)"

text \<open>
  \<open>m.set(k, e)\<close>: a key that is present keeps its place and takes the new entry, a new key
  goes to the end.
\<close>

fun Map_set :: "('a \<times> 'b) list \<Rightarrow> 'a \<Rightarrow> 'b \<Rightarrow> ('a \<times> 'b) list" where
  "Map_set [] k e = [(k, e)]"
| "Map_set ((k', e') # m) k e = (if k' = k then (k, e) # m else (k', e') # Map_set m k e)"

text \<open>\<open>m.size\<close>\<close>

definition Map_size :: "('a \<times> 'b) list \<Rightarrow> nat" where
  "Map_size m = length m"

text \<open>
  \<open>m.keys().next().value\<close>: the first key in insertion order. On an empty map the
  iterator is done at once and its \<open>value\<close> is \<open>undefined\<close>.
\<close>

fun Map_keys_next_value :: "('k key \<times> 'b) list \<Rightarrow> 'k key" where
  "Map_keys_next_value [] = Undefined"
| "Map_keys_next_value ((k, e) # m) = k"

subsection \<open>\<open>LRUCache\<close>\<close>

record 'v CacheEntry =
  entry_value :: 'v
  expiresAt :: number

record CacheOptions =
  opt_maxSize :: "int option"
  opt_ttl :: "number option"

record ('k, 'v) LRUCache =
  cache :: "('k key \<times> 'v CacheEntry) list"
  maxSize :: int
  ttl :: number

text \<open>The constructor: \<open>options.maxSize ?? 50\<close>, \<open>options.ttl ?? Infinity\<close>, an empty map.\<close>

definition LRUCache_new :: "CacheOptions \<Rightarrow> ('k, 'v) LRUCache" where
  "LRUCache_new options =
     \<lparr> cache = [],
       maxSize = (case opt_maxSize options of None \<Rightarrow> 50 | Some n \<Rightarrow> n),
       ttl = (case opt_ttl options of None \<Rightarrow> Infinity | Some t \<Rightarrow> t) \<rparr>"

text \<open>
  Every method takes the reading of \<open>Date.now()\<close> it would make as its first argument and
  returns its result with the cache after the call.
\<close>

definition LRUCache_get ::
  "int \<Rightarrow> 'k key \<Rightarrow> ('k, 'v) LRUCache \<Rightarrow> 'v option \<times> ('k, 'v) LRUCache" where
  "LRUCache_get now k c =
     (case Map_get (cache c) k of
        None \<Rightarrow> (None, c)
      | Some entry \<Rightarrow>
          if now_gt now (expiresAt entry)
          then (None, c\<lparr>cache := snd (Map_delete (cache c) k)\<rparr>)
          else (Some (entry_value entry),
                c\<lparr>cache := Map_set (snd (Map_delete (cache c) k)) k entry\<rparr>))"

definition LRUCache_set ::
  "int \<Rightarrow> 'k key \<Rightarrow> 'v \<Rightarrow> ('k, 'v) LRUCache \<Rightarrow> ('k, 'v) LRUCache" where
  "LRUCache_set now k v c =
     (let m1 = (if Map_has (cache c) k then snd (Map_delete (cache c) k) else cache c);
          m2 = (if maxSize c \<le> int (Map_size m1)
                then (let oldestKey = Map_keys_next_value m1
                      in if oldestKey \<noteq> Undefined then snd (Map_delete m1 oldestKey) else m1)
                else m1)
      in c\<lparr>cache := Map_set m2 k \<lparr> entry_value = v, expiresAt = now_plus now (ttl c) \<rparr>\<rparr>)"

definition LRUCache_has ::
  "int \<Rightarrow> 'k key \<Rightarrow> ('k, 'v) LRUCache \<Rightarrow> bool \<times> ('k, 'v) LRUCache" where
  "LRUCache_has now k c =
     (case Map_get (cache c) k of
        None \<Rightarrow> (False, c)
      | Some entry \<Rightarrow>
          if now_gt now (expiresAt entry)
          then (False, c\<lparr>cache := snd (Map_delete (cache c) k)\<rparr>)
          else (True, c))"

definition LRUCache_delete :: "'k key \<Rightarrow> ('k, 'v) LRUCache \<Rightarrow> bool \<times> ('k, 'v) LRUCache" where
  "LRUCache_delete k c = (fst (Map_delete (cache c) k), c\<lparr>cache := snd (Map_delete (cache c) k)\<rparr>)"

definition LRUCache_clear :: "('k, 'v) LRUCache \<Rightarrow> ('k, 'v) LRUCache" where
  "LRUCache_clear c = c\<lparr>cache := []\<rparr>"

definition LRUCache_size :: "('k, 'v) LRUCache \<Rightarrow> nat" where
  "LRUCache_size c = Map_size (cache c)"

text \<open>
  A run of \<open>set\<close> calls, each with its clock reading, key and value, and the same for
  \<open>get\<close> calls with the results collected: the shape of the scenarios below.
\<close>

fun set_calls :: "(int \<times> 'k key \<times> 'v) list \<Rightarrow> ('k, 'v) LRUCache \<Rightarrow> ('k, 'v) LRUCache" where
  "set_calls [] c = c"
| "set_calls ((now, k, v) # calls) c = set_calls calls (LRUCache_set now k v c)"

fun get_calls :: "(int \<times> 'k key) list \<Rightarrow> ('k, 'v) LRUCache \<Rightarrow> 'v option list \<times> ('k, 'v) LRUCache" where
  "get_calls [] c = ([], c)"
| "get_calls ((now, k) # calls) c =
     (case LRUCache_get now k c of
        (r, c') \<Rightarrow> (case get_calls calls c' of (rs, c'') \<Rightarrow> (r # rs, c'')))"

subsection \<open>The font resolver\<close>

text \<open>
  \<open>String(n)\<close> for an integer \<open>n\<close> (below \<open>10^21\<close> in absolute value, where JavaScript
  switches to exponent notation): the decimal digits, with a minus sign when negative.
\<close>

definition digit_char :: "nat \<Rightarrow> char" where
  "digit_char d = char_of (48 + d)"

fun nat_digits :: "nat \<Rightarrow> string" where
  "nat_digits n = (if n < 10 then [digit_char n] else nat_digits (n div 10) @ [digit_char (n mod 10)])"

definition number_toString :: "int \<Rightarrow> string" where
  "number_toString n = (if n < 0 then CHR ''-'' # nat_digits (nat (- n)) else nat_digits (nat n))"

text \<open>The template literal \<open>`${family}:${weight}:${style}`\<close>.\<close>

definition fontCacheKey :: "string \<Rightarrow> int \<Rightarrow> string \<Rightarrow> string" where
  "fontCacheKey family weight style = family @ '':'' @ number_toString weight @ '':'' @ style"

text \<open>The module's shared cache; its values are font descriptors, left abstract.\<close>

definition fontCache :: "(string, 'font) LRUCache" where
  "fontCache = LRUCache_new \<lparr> opt_maxSize = Some 30, opt_ttl = Some (Finite (30 * 60 * 1000)) \<rparr>"

record LoadGoogleFontOptions =
  opt_weight :: "int option"
  opt_style :: "string option"

text \<open>
  The start of \<open>loadGoogleFont\<close>, up to the cache probe: the defaults of weight and style,
  the key, and \<open>fontCache.get(key)\<close>. What follows in the source is network traffic.
\<close>

definition loadGoogleFont_key :: "string \<Rightarrow> LoadGoogleFontOptions \<Rightarrow> string" where
  "loadGoogleFont_key family options =
     fontCacheKey family
       (case opt_weight options of None \<Rightarrow> 400 | Some w \<Rightarrow> w)
       (case opt_style options of None \<Rightarrow> ''normal'' | Some s \<Rightarrow> s)"

definition loadGoogleFont_cached ::
  "int \<Rightarrow> string \<Rightarrow> LoadGoogleFontOptions \<Rightarrow> (string, 'font) LRUCache
     \<Rightarrow> 'font option \<times> (string, 'font) LRUCache" where
  "loadGoogleFont_cached now family options c =
     LRUCache_get now (Key (loadGoogleFont_key family options)) c"

section \<open>Properties\<close>

subsection \<open>Facts about the map\<close>

lemma Map_has_iff: "Map_has m k = (k \<in> fst ` set m)"
  by (induction m) (auto split: if_splits)

lemma Map_has_get: "Map_has m k = (Map_get m k \<noteq> None)"
  by (induction m) (auto split: if_splits)

lemma Map_remove_filter: "Map_remove m k = filter (\<lambda>p. fst p \<noteq> k) m"
  by (induction m) auto

lemma set_Map_remove: "set (Map_remove m k) = {p \<in> set m. fst p \<noteq> k}"
  by (simp add: Map_remove_filter)

lemma Map_has_remove_same [simp]: "\<not> Map_has (Map_remove m k) k"
  by (auto simp: Map_has_iff set_Map_remove)

lemma Map_has_remove_other [simp]: "k' \<noteq> k \<Longrightarrow> Map_has (Map_remove m k) k' = Map_has m k'"
  by (auto simp: Map_has_iff set_Map_remove)

lemma Map_get_remove_same [simp]: "Map_get (Map_remove m k) k = None"
  using Map_has_remove_same [of m k] by (simp add: Map_has_get)

lemma Map_get_remove_other [simp]: "k' \<noteq> k \<Longrightarrow> Map_get (Map_remove m k) k' = Map_get m k'"
  by (induction m) (auto split: if_splits)

lemma Map_remove_absent: "\<not> Map_has m k \<Longrightarrow> Map_remove m k = m"
  by (induction m) (auto split: if_splits)

lemma Map_set_absent: "\<not> Map_has m k \<Longrightarrow> Map_set m k e = m @ [(k, e)]"
  by (induction m) (auto split: if_splits)

lemma Map_get_set_same [simp]: "Map_get (Map_set m k e) k = Some e"
  by (induction m) (auto split: if_splits)

lemma Map_get_set_other [simp]: "k' \<noteq> k \<Longrightarrow> Map_get (Map_set m k e) k' = Map_get m k'"
  by (induction m) (auto split: if_splits)

lemma Map_get_append:
  "Map_get (m @ m') k = (case Map_get m k of None \<Rightarrow> Map_get m' k | Some e \<Rightarrow> Some e)"
  by (induction m) (auto split: if_splits)

lemma length_Map_remove_le: "length (Map_remove m k) \<le> length m"
  by (induction m) (auto split: if_splits)

lemma length_Map_remove_present:
  "Map_ok m \<Longrightarrow> Map_has m k \<Longrightarrow> Suc (length (Map_remove m k)) = length m"
proof (induction m)
  case Nil
  then show ?case by simp
next
  case (Cons p m)
  obtain k' e where p: "p = (k', e)" by (cases p)
  show ?case
  proof (cases "k' = k")
    case True
    with Cons.prems p have "\<not> Map_has m k"
      by (auto simp: Map_ok_def Map_has_iff)
    with True p show ?thesis by (simp add: Map_remove_absent)
  next
    case False
    with Cons p show ?thesis by (simp add: Map_ok_def)
  qed
qed

text \<open>
  On a map that holds every key once, \<open>Map_remove\<close> takes out exactly the one pair of
  the key, as \<open>Map.prototype.delete\<close> does, and every operation keeps such a map one.
\<close>

lemma Map_ok_remove: "Map_ok m \<Longrightarrow> Map_ok (Map_remove m k)"
  by (simp add: Map_ok_def Map_remove_filter distinct_map_filter)

lemma keys_Map_set:
  "map fst (Map_set m k e) = (if Map_has m k then map fst m else map fst m @ [k])"
  by (induction m) (auto split: if_splits)

lemma Map_ok_set: "Map_ok m \<Longrightarrow> Map_ok (Map_set m k e)"
  by (simp add: Map_ok_def keys_Map_set Map_has_iff)

lemma Map_remove_once:
  assumes "Map_ok (m1 @ (k, e) # m2)"
  shows "Map_remove (m1 @ (k, e) # m2) k = m1 @ m2"
proof -
  from assms have "k \<notin> fst ` set m1" "k \<notin> fst ` set m2"
    by (auto simp: Map_ok_def)
  then have "Map_remove m1 k = m1" "Map_remove m2 k = m2"
    by (simp_all add: Map_remove_absent Map_has_iff)
  then show ?thesis by (simp add: Map_remove_filter)
qed

subsection \<open>Facts about \<open>LRUCache.set\<close>\<close>

lemma set_first_step:
  "(if Map_has m k then snd (Map_delete m k) else m) = Map_remove m k"
  by (simp add: Map_delete_def Map_remove_absent)

lemma LRUCache_set_cache:
  "cache (LRUCache_set t k v c) =
     (if maxSize c \<le> int (length (Map_remove (cache c) k))
         \<and> Map_keys_next_value (Map_remove (cache c) k) \<noteq> Undefined
      then Map_remove (Map_remove (cache c) k) (Map_keys_next_value (Map_remove (cache c) k))
      else Map_remove (cache c) k)
     @ [(k, \<lparr> entry_value = v, expiresAt = now_plus t (ttl c) \<rparr>)]"
proof -
  have absent: "\<not> Map_has (Map_remove (Map_remove (cache c) k) k') k" for k'
    by (auto simp: Map_has_iff set_Map_remove)
  show ?thesis
    unfolding LRUCache_set_def set_first_step Let_def
    by (simp add: Map_delete_def Map_size_def Map_set_absent absent)
qed

lemma LRUCache_set_fields [simp]:
  "maxSize (LRUCache_set t k v c) = maxSize c" "ttl (LRUCache_set t k v c) = ttl c"
  by (simp_all add: LRUCache_set_def Let_def)

lemma LRUCache_set_stored:
  "Map_get (cache (LRUCache_set t k v c)) k = Some \<lparr> entry_value = v, expiresAt = now_plus t (ttl c) \<rparr>"
  by (simp add: LRUCache_set_def Let_def)

lemma Map_keys_next_value_in:
  "m \<noteq> [] \<Longrightarrow> Map_has m (Map_keys_next_value m)"
  by (cases m) auto

lemma Map_remove_first_shorter:
  "m \<noteq> [] \<Longrightarrow> length (Map_remove m (Map_keys_next_value m)) < length m"
proof (cases m)
  case Nil
  then show "m \<noteq> [] \<Longrightarrow> ?thesis" by simp
next
  case (Cons p m')
  obtain k e where "p = (k, e)" by (cases p)
  with Cons show ?thesis
    using length_Map_remove_le [of m' k] by simp
qed

lemma set_keeps_capacity:
  assumes pos: "0 < maxSize c"
      and cap: "int (LRUCache_size c) \<le> maxSize c"
      and def: "Undefined \<notin> fst ` set (cache c)"
      and k: "k \<noteq> Undefined"
  shows "int (LRUCache_size (LRUCache_set t k v c)) \<le> maxSize c
         \<and> Undefined \<notin> fst ` set (cache (LRUCache_set t k v c))"
proof -
  let ?m1 = "Map_remove (cache c) k"
  have len1: "length ?m1 \<le> length (cache c)" by (rule length_Map_remove_le)
  have def1: "Undefined \<notin> fst ` set ?m1" using def by (auto simp: set_Map_remove)
  show ?thesis
  proof (cases "maxSize c \<le> int (length ?m1)")
    case True
    with pos have ne: "?m1 \<noteq> []" by auto
    then have "Map_has ?m1 (Map_keys_next_value ?m1)" by (rule Map_keys_next_value_in)
    with def1 have old: "Map_keys_next_value ?m1 \<noteq> Undefined"
      unfolding Map_has_iff by metis
    have "length (Map_remove ?m1 (Map_keys_next_value ?m1)) < length ?m1"
      using ne by (rule Map_remove_first_shorter)
    with len1 cap have "int (length (Map_remove ?m1 (Map_keys_next_value ?m1))) + 1 \<le> maxSize c"
      by (simp add: LRUCache_size_def Map_size_def)
    moreover have "Undefined \<notin> fst ` set (Map_remove ?m1 (Map_keys_next_value ?m1))"
      using def1 by (auto simp: set_Map_remove)
    ultimately show ?thesis using True old k
      by (simp add: LRUCache_set_cache LRUCache_size_def Map_size_def)
  next
    case False
    then show ?thesis using def1 k
      by (simp add: LRUCache_set_cache LRUCache_size_def Map_size_def)
  qed
qed

lemma LRUCache_set_once:
  "Map_remove (cache (LRUCache_set t k v c)) k = butlast (cache (LRUCache_set t k v c))"
proof -
  have absent: "\<not> Map_has (Map_remove (Map_remove (cache c) k) k') k" for k'
    by (auto simp: Map_has_iff set_Map_remove)
  have "Map_remove (m @ [(k, e)]) k = m"
    if "\<not> Map_has m k" for m :: "('a key \<times> 'b CacheEntry) list" and e
    using that by (auto simp: Map_remove_filter Map_has_iff filter_id_conv)
  from this [OF absent] this [OF Map_has_remove_same]
  show ?thesis by (simp add: LRUCache_set_cache)
qed

text \<open>
  Every cache a program can build holds each key once: the constructor starts with the
  empty map and the methods keep the property.
\<close>

lemma LRUCache_new_ok: "Map_ok (cache (LRUCache_new options))"
  by (simp add: LRUCache_new_def Map_ok_def)

lemma LRUCache_set_ok: "Map_ok (cache c) \<Longrightarrow> Map_ok (cache (LRUCache_set t k v c))"
  by (simp add: LRUCache_set_def Let_def Map_delete_def Map_ok_set Map_ok_remove)

lemma LRUCache_get_ok: "Map_ok (cache c) \<Longrightarrow> Map_ok (cache (snd (LRUCache_get t k c)))"
  by (simp add: LRUCache_get_def Map_delete_def Map_ok_set Map_ok_remove split: option.splits)

lemma LRUCache_has_ok: "Map_ok (cache c) \<Longrightarrow> Map_ok (cache (snd (LRUCache_has t k c)))"
  by (simp add: LRUCache_has_def Map_delete_def Map_ok_remove split: option.splits)

lemma LRUCache_delete_ok: "Map_ok (cache c) \<Longrightarrow> Map_ok (cache (snd (LRUCache_delete k c)))"
  by (simp add: LRUCache_delete_def Map_delete_def Map_ok_remove)

lemmas cache_defs = LRUCache_new_def LRUCache_set_def LRUCache_get_def LRUCache_has_def
  LRUCache_delete_def LRUCache_size_def Map_delete_def Map_size_def Let_def

subsection \<open>The capacity bound\<close>

text \<open>
  As long as no key is \<open>undefined\<close>, a \<open>set\<close> on a cache within its positive capacity
  leaves it within its capacity: when the map is full its first key is a real key and is
  deleted before the new entry goes in.
\<close>

lemma set_calls_append: "set_calls (xs @ ys) c = set_calls ys (set_calls xs c)"
  by (induction xs arbitrary: c) auto

lemma set_calls_keep_capacity:
  assumes "0 < maxSize c" "int (LRUCache_size c) \<le> maxSize c"
      "Undefined \<notin> fst ` set (cache c)" "\<forall>(t, k, v) \<in> set calls. k \<noteq> Undefined"
  shows "int (LRUCache_size (set_calls calls c)) \<le> maxSize c
         \<and> maxSize (set_calls calls c) = maxSize c
         \<and> Undefined \<notin> fst ` set (cache (set_calls calls c))"
  using assms
proof (induction calls arbitrary: c)
  case Nil
  then show ?case by simp
next
  case (Cons x calls)
  obtain t k v where x: "x = (t, k, v)" by (cases x)
  with Cons.prems have k: "k \<noteq> Undefined" by simp
  from set_keeps_capacity [OF Cons.prems(1-3) k, of t v]
  have step: "int (LRUCache_size (LRUCache_set t k v c)) \<le> maxSize (LRUCache_set t k v c)"
       "Undefined \<notin> fst ` set (cache (LRUCache_set t k v c))"
    by simp_all
  have "0 < maxSize (LRUCache_set t k v c)" using Cons.prems(1) by simp
  from Cons.IH [OF this step] Cons.prems(4) x show ?case by simp
qed

lemma capacity_with_defined_keys:
  assumes "0 < n" "\<forall>(t, k, v) \<in> set calls. k \<noteq> Undefined" "i \<le> length calls"
  shows "int (LRUCache_size (set_calls (take i calls)
            (LRUCache_new \<lparr> opt_maxSize = Some n, opt_ttl = x \<rparr>))) \<le> n"
proof -
  let ?c = "LRUCache_new \<lparr> opt_maxSize = Some n, opt_ttl = x \<rparr> :: ('a, 'b) LRUCache"
  have "\<forall>(t, k, v) \<in> set (take i calls). k \<noteq> Undefined"
    using assms(2) by (auto dest: in_set_takeD)
  from set_calls_keep_capacity [of ?c "take i calls", OF _ _ _ this] assms(1)
  show ?thesis by (simp add: LRUCache_new_def LRUCache_size_def Map_size_def)
qed

text \<open>
  Claim C1 (capacity invariant): after every \<open>set\<close> of a run of \<open>set\<close> calls with distinct
  keys, on a cache constructed with a positive \<open>maxSize\<close>, \<open>size\<close> is at most \<open>maxSize\<close>.
  The code breaks it when the least recently used key is \<open>undefined\<close>: with \<open>maxSize = 1\<close>,
  \<open>set(undefined, 1)\<close> and then \<open>set('a', 2)\<close> leave two entries. The map is full at the
  second call, \<open>keys().next().value\<close> is the key \<open>undefined\<close>, the test
  \<open>oldestKey !== undefined\<close> fails and nothing is deleted. For keys other than
  \<open>undefined\<close> the bound holds (\<open>capacity_with_defined_keys\<close>).
\<close>

theorem capacity_broken_by_undefined_key:
  "int (LRUCache_size
     (set_calls [(0, Undefined, 1::int), (0, Key ''a'', 2)]
        (LRUCache_new \<lparr> opt_maxSize = Some 1, opt_ttl = None \<rparr>))) = 2
   \<and> maxSize (set_calls [(0, Undefined, 1::int), (0, Key ''a'', 2)]
        (LRUCache_new \<lparr> opt_maxSize = Some 1, opt_ttl = None \<rparr>)) = 1
   \<and> distinct [Undefined, Key ''a'']"
  by (simp add: cache_defs)

text \<open>
  Claim C10: the eviction guard takes the key \<open>undefined\<close> for an empty map. When the
  least recently used entry of a cache at capacity has the key \<open>undefined\<close>, a \<open>set\<close> of
  a key that is not in the cache deletes nothing, appends the new entry, and the cache
  has \<open>maxSize + 1\<close> entries.
\<close>

theorem undefined_key_blocks_eviction:
  assumes "cache c = (Undefined, e) # rest"
      and "int (LRUCache_size c) = maxSize c"
      and "\<not> Map_has (cache c) k"
  shows "cache (LRUCache_set t k v c)
           = cache c @ [(k, \<lparr> entry_value = v, expiresAt = now_plus t (ttl c) \<rparr>)]
         \<and> int (LRUCache_size (LRUCache_set t k v c)) = maxSize c + 1"
proof -
  have fresh: "Map_remove (cache c) k = cache c"
    using assms(3) by (rule Map_remove_absent)
  have oldest: "Map_keys_next_value (cache c) = Undefined"
    by (simp add: assms(1))
  have "cache (LRUCache_set t k v c)
           = cache c @ [(k, \<lparr> entry_value = v, expiresAt = now_plus t (ttl c) \<rparr>)]"
    by (simp add: LRUCache_set_cache fresh oldest)
  with assms(2) show ?thesis
    by (simp add: LRUCache_size_def Map_size_def)
qed

theorem undefined_key_blocks_eviction_witness:
  "cache (LRUCache_set 0 Undefined (1::int)
       (LRUCache_new \<lparr> opt_maxSize = Some 1, opt_ttl = None \<rparr> :: (string, int) LRUCache))
     = (Undefined, \<lparr> entry_value = 1, expiresAt = Infinity \<rparr>) # []
   \<and> int (LRUCache_size (LRUCache_set 0 Undefined (1::int)
       (LRUCache_new \<lparr> opt_maxSize = Some 1, opt_ttl = None \<rparr> :: (string, int) LRUCache)))
     = maxSize (LRUCache_set 0 Undefined (1::int)
       (LRUCache_new \<lparr> opt_maxSize = Some 1, opt_ttl = None \<rparr> :: (string, int) LRUCache))
   \<and> \<not> Map_has (cache (LRUCache_set 0 Undefined (1::int)
       (LRUCache_new \<lparr> opt_maxSize = Some 1, opt_ttl = None \<rparr> :: (string, int) LRUCache)))
         (Key ''a'')
   \<and> map fst (cache (LRUCache_set 0 (Key ''a'') 2 (LRUCache_set 0 Undefined (1::int)
       (LRUCache_new \<lparr> opt_maxSize = Some 1, opt_ttl = None \<rparr> :: (string, int) LRUCache))))
     = [Undefined, Key ''a'']
   \<and> int (LRUCache_size (LRUCache_set 0 (Key ''a'') 2 (LRUCache_set 0 Undefined (1::int)
       (LRUCache_new \<lparr> opt_maxSize = Some 1, opt_ttl = None \<rparr> :: (string, int) LRUCache))))
     = 1 + 1"
  using undefined_key_blocks_eviction
    [of "LRUCache_set 0 Undefined (1::int)
           (LRUCache_new \<lparr> opt_maxSize = Some 1, opt_ttl = None \<rparr> :: (string, int) LRUCache)"
        "\<lparr> entry_value = 1, expiresAt = Infinity \<rparr>" "[]" "Key ''a''" 0 2]
  by (simp add: cache_defs)

subsection \<open>Recency order\<close>

text \<open>
  Claim C2: the eviction victim is the least recently touched key, and a successful
  \<open>get\<close> is a touch. In a cache of capacity 3, after \<open>set\<close> of \<open>a\<close>, \<open>b\<close>, \<open>c\<close> and \<open>d\<close>
  the keys are \<open>b\<close>, \<open>c\<close>, \<open>d\<close>: \<open>get('a')\<close> is absent and \<open>get\<close> of \<open>b\<close>, \<open>c\<close>, \<open>d\<close>
  hit. With a \<open>get('a')\<close> between the \<open>set\<close> of \<open>c\<close> and the \<open>set\<close> of \<open>d\<close>, the victim is
  \<open>b\<close> and \<open>a\<close> stays. Values and clock readings are arbitrary; the time to live is the
  default, \<open>Infinity\<close>.
\<close>

theorem lru_order_and_promotion:
  "fst (get_calls [(u1, Key ''a''), (u2, Key ''b''), (u3, Key ''c''), (u4, Key ''d'')]
          (set_calls [(t1, Key ''a'', v1), (t2, Key ''b'', v2), (t3, Key ''c'', v3),
                      (t4, Key ''d'', v4)]
             (LRUCache_new \<lparr> opt_maxSize = Some 3, opt_ttl = None \<rparr>)))
     = [None, Some v2, Some v3, Some v4]
   \<and> map fst (cache
          (set_calls [(t1, Key ''a'', v1), (t2, Key ''b'', v2), (t3, Key ''c'', v3),
                      (t4, Key ''d'', v4)]
             (LRUCache_new \<lparr> opt_maxSize = Some 3, opt_ttl = None \<rparr>)))
     = [Key ''b'', Key ''c'', Key ''d'']
   \<and> fst (LRUCache_get t0 (Key ''a'')
          (set_calls [(t1, Key ''a'', v1), (t2, Key ''b'', v2), (t3, Key ''c'', v3)]
             (LRUCache_new \<lparr> opt_maxSize = Some 3, opt_ttl = None \<rparr>)))
     = Some v1
   \<and> map fst (cache
          (LRUCache_set t4 (Key ''d'') v4
             (snd (LRUCache_get t0 (Key ''a'')
                (set_calls [(t1, Key ''a'', v1), (t2, Key ''b'', v2), (t3, Key ''c'', v3)]
                   (LRUCache_new \<lparr> opt_maxSize = Some 3, opt_ttl = None \<rparr>))))))
     = [Key ''c'', Key ''a'', Key ''d'']
   \<and> fst (get_calls [(u1, Key ''a''), (u2, Key ''b''), (u3, Key ''c''), (u4, Key ''d'')]
          (LRUCache_set t4 (Key ''d'') v4
             (snd (LRUCache_get t0 (Key ''a'')
                (set_calls [(t1, Key ''a'', v1), (t2, Key ''b'', v2), (t3, Key ''c'', v3)]
                   (LRUCache_new \<lparr> opt_maxSize = Some 3, opt_ttl = None \<rparr>))))))
     = [Some v1, None, Some v3, Some v4]"
  by (simp add: cache_defs)

text \<open>
  Claim C5: \<open>has\<close> does not promote. A \<open>has\<close> that returns true leaves the cache as it
  was, order included; so after \<open>set\<close> of \<open>a\<close>, \<open>b\<close>, \<open>c\<close> in a cache of capacity 3 and
  a \<open>has('a')\<close>, which returns true, the \<open>set\<close> of \<open>d\<close> still evicts \<open>a\<close>.
\<close>

theorem has_does_not_promote:
  "(fst (LRUCache_has t k c) \<longrightarrow> snd (LRUCache_has t k c) = c)
   \<and> LRUCache_has t0 (Key ''a'')
         (set_calls [(t1, Key ''a'', v1), (t2, Key ''b'', v2), (t3, Key ''c'', v3)]
            (LRUCache_new \<lparr> opt_maxSize = Some 3, opt_ttl = None \<rparr>))
       = (True, set_calls [(t1, Key ''a'', v1), (t2, Key ''b'', v2), (t3, Key ''c'', v3)]
            (LRUCache_new \<lparr> opt_maxSize = Some 3, opt_ttl = None \<rparr>))
   \<and> map fst (cache (LRUCache_set t4 (Key ''d'') v4
         (snd (LRUCache_has t0 (Key ''a'')
            (set_calls [(t1, Key ''a'', v1), (t2, Key ''b'', v2), (t3, Key ''c'', v3)]
               (LRUCache_new \<lparr> opt_maxSize = Some 3, opt_ttl = None \<rparr>))))))
       = [Key ''b'', Key ''c'', Key ''d'']
   \<and> fst (get_calls [(u1, Key ''a''), (u2, Key ''b''), (u3, Key ''c''), (u4, Key ''d'')]
         (LRUCache_set t4 (Key ''d'') v4
           (snd (LRUCache_has t0 (Key ''a'')
              (set_calls [(t1, Key ''a'', v1), (t2, Key ''b'', v2), (t3, Key ''c'', v3)]
                 (LRUCache_new \<lparr> opt_maxSize = Some 3, opt_ttl = None \<rparr>))))))
       = [None, Some v2, Some v3, Some v4]"
proof -
  have frame: "fst (LRUCache_has t k c) \<longrightarrow> snd (LRUCache_has t k c) = c"
    by (simp add: LRUCache_has_def split: option.splits)
  show ?thesis
    unfolding conj_assoc [symmetric]
    by (intro conjI frame) (simp_all add: cache_defs)
qed

theorem has_does_not_promote_witness:
  "fst (LRUCache_has 5 (Key ''a'')
      (LRUCache_set 0 (Key ''b'') (2::int) (LRUCache_set 0 (Key ''a'') 1
         (LRUCache_new \<lparr> opt_maxSize = Some 3, opt_ttl = Some (Finite 10) \<rparr>))))
   \<and> snd (LRUCache_has 5 (Key ''a'')
      (LRUCache_set 0 (Key ''b'') (2::int) (LRUCache_set 0 (Key ''a'') 1
         (LRUCache_new \<lparr> opt_maxSize = Some 3, opt_ttl = Some (Finite 10) \<rparr>))))
     = LRUCache_set 0 (Key ''b'') (2::int) (LRUCache_set 0 (Key ''a'') 1
         (LRUCache_new \<lparr> opt_maxSize = Some 3, opt_ttl = Some (Finite 10) \<rparr>))"
  using has_does_not_promote [of 5 "Key ''a''"
      "LRUCache_set 0 (Key ''b'') (2::int) (LRUCache_set 0 (Key ''a'') 1
         (LRUCache_new \<lparr> opt_maxSize = Some 3, opt_ttl = Some (Finite 10) \<rparr>))"]
  by (simp add: cache_defs)

subsection \<open>Overwriting\<close>

text \<open>
  Claim C4: overwriting a key evicts no other key. In a cache within its capacity, a
  \<open>set\<close> of a key that is present moves that key to the end with the new value and leaves
  every other entry as it was; the size is unchanged and a \<open>get\<close> of the key, while the
  new entry is live, returns the new value. The witness is the cache of capacity 3 with
  \<open>a\<close>, \<open>b\<close>, \<open>c\<close> and \<open>set('b', 20)\<close>.
\<close>

theorem overwrite_does_not_evict:
  assumes "Map_ok (cache c)" "Map_has (cache c) k" "int (LRUCache_size c) \<le> maxSize c"
  shows "cache (LRUCache_set t k v c)
           = Map_remove (cache c) k @ [(k, \<lparr> entry_value = v, expiresAt = now_plus t (ttl c) \<rparr>)]
       \<and> LRUCache_size (LRUCache_set t k v c) = LRUCache_size c
       \<and> (\<forall>k'. k' \<noteq> k \<longrightarrow> Map_get (cache (LRUCache_set t k v c)) k' = Map_get (cache c) k')
       \<and> (\<not> now_gt t' (now_plus t (ttl c)) \<longrightarrow>
             fst (LRUCache_get t' k (LRUCache_set t k v c)) = Some v)"
proof -
  have len: "Suc (length (Map_remove (cache c) k)) = length (cache c)"
    using assms(1,2) by (rule length_Map_remove_present)
  with assms(3) have "\<not> maxSize c \<le> int (length (Map_remove (cache c) k))"
    by (simp add: LRUCache_size_def Map_size_def)
  then have eq: "cache (LRUCache_set t k v c)
           = Map_remove (cache c) k @ [(k, \<lparr> entry_value = v, expiresAt = now_plus t (ttl c) \<rparr>)]"
    by (simp add: LRUCache_set_cache)
  have size: "LRUCache_size (LRUCache_set t k v c) = LRUCache_size c"
    using len by (simp add: eq LRUCache_size_def Map_size_def)
  have others: "\<forall>k'. k' \<noteq> k \<longrightarrow> Map_get (cache (LRUCache_set t k v c)) k' = Map_get (cache c) k'"
    by (simp add: eq Map_get_append split: option.splits)
  have "\<not> now_gt t' (now_plus t (ttl c)) \<longrightarrow>
             fst (LRUCache_get t' k (LRUCache_set t k v c)) = Some v"
    by (simp add: LRUCache_get_def LRUCache_set_stored)
  with eq size others show ?thesis by blast
qed

theorem overwrite_does_not_evict_witness:
  "Map_ok (cache (set_calls [(0, Key ''a'', 1::int), (0, Key ''b'', 2), (0, Key ''c'', 3)]
             (LRUCache_new \<lparr> opt_maxSize = Some 3, opt_ttl = None \<rparr>)))
   \<and> Map_has (cache (set_calls [(0, Key ''a'', 1::int), (0, Key ''b'', 2), (0, Key ''c'', 3)]
             (LRUCache_new \<lparr> opt_maxSize = Some 3, opt_ttl = None \<rparr>))) (Key ''b'')
   \<and> int (LRUCache_size (set_calls [(0, Key ''a'', 1::int), (0, Key ''b'', 2), (0, Key ''c'', 3)]
             (LRUCache_new \<lparr> opt_maxSize = Some 3, opt_ttl = None \<rparr>)))
       \<le> maxSize (set_calls [(0, Key ''a'', 1::int), (0, Key ''b'', 2), (0, Key ''c'', 3)]
             (LRUCache_new \<lparr> opt_maxSize = Some 3, opt_ttl = None \<rparr>))
   \<and> LRUCache_size (LRUCache_set 0 (Key ''b'') 20
          (set_calls [(0, Key ''a'', 1::int), (0, Key ''b'', 2), (0, Key ''c'', 3)]
             (LRUCache_new \<lparr> opt_maxSize = Some 3, opt_ttl = None \<rparr>))) = 3
   \<and> fst (get_calls [(0, Key ''a''), (0, Key ''c''), (0, Key ''b'')]
          (LRUCache_set 0 (Key ''b'') 20
            (set_calls [(0, Key ''a'', 1::int), (0, Key ''b'', 2), (0, Key ''c'', 3)]
               (LRUCache_new \<lparr> opt_maxSize = Some 3, opt_ttl = None \<rparr>))))
       = [Some 1, Some 3, Some 20]"
  using overwrite_does_not_evict
    [of "set_calls [(0, Key ''a'', 1::int), (0, Key ''b'', 2), (0, Key ''c'', 3)]
           (LRUCache_new \<lparr> opt_maxSize = Some 3, opt_ttl = None \<rparr>)" "Key ''b''" 0 20 0]
  by (simp add: cache_defs Map_ok_def)

subsection \<open>Expiry\<close>

text \<open>
  Claim C3: expiry by time to live. Let the time to live be finite, \<open>d\<close>, and let
  \<open>set(k, v)\<close> run at clock reading \<open>T\<close>. In every later state \<open>s\<close> of the cache in which
  the entry of \<open>k\<close> is still the one that \<open>set\<close> wrote (no eviction and no overwrite in
  between; the state right after the \<open>set\<close> is one), a \<open>get(k)\<close> or \<open>has(k)\<close> at a time
  \<open>t > T + d\<close> reports absent and removes the entry, and at a time \<open>t \<le> T + d\<close>
  \<open>get(k)\<close> returns \<open>v\<close> and \<open>has(k)\<close> returns true.
\<close>

theorem ttl_expiry:
  assumes "ttl c = Finite d"
      and "Map_get (cache s) k = Map_get (cache (LRUCache_set T k v c)) k"
  shows "(T + d < t \<longrightarrow>
            LRUCache_get t k s = (None, s\<lparr>cache := Map_remove (cache s) k\<rparr>)
          \<and> LRUCache_has t k s = (False, s\<lparr>cache := Map_remove (cache s) k\<rparr>)
          \<and> \<not> Map_has (Map_remove (cache s) k) k)
       \<and> (t \<le> T + d \<longrightarrow>
            fst (LRUCache_get t k s) = Some v \<and> LRUCache_has t k s = (True, s))"
  using assms
  by (simp add: LRUCache_set_stored LRUCache_get_def LRUCache_has_def Map_delete_def)

theorem ttl_expiry_witness:
  "ttl (LRUCache_new \<lparr> opt_maxSize = Some 10, opt_ttl = Some (Finite 1000) \<rparr> :: (string, int) LRUCache) = Finite 1000
   \<and> fst (LRUCache_get 1001 (Key ''k'')
        (LRUCache_set 0 (Key ''k'') (42::int)
           (LRUCache_new \<lparr> opt_maxSize = Some 10, opt_ttl = Some (Finite 1000) \<rparr>))) = None
   \<and> fst (LRUCache_has 1001 (Key ''k'')
        (LRUCache_set 0 (Key ''k'') (42::int)
           (LRUCache_new \<lparr> opt_maxSize = Some 10, opt_ttl = Some (Finite 1000) \<rparr>))) = False
   \<and> fst (LRUCache_get 1000 (Key ''k'')
        (LRUCache_set 0 (Key ''k'') (42::int)
           (LRUCache_new \<lparr> opt_maxSize = Some 10, opt_ttl = Some (Finite 1000) \<rparr>))) = Some 42"
  using ttl_expiry [of "LRUCache_new \<lparr> opt_maxSize = Some 10, opt_ttl = Some (Finite 1000) \<rparr> :: (string, int) LRUCache"
      1000 "LRUCache_set 0 (Key ''k'') (42::int) (LRUCache_new \<lparr> opt_maxSize = Some 10, opt_ttl = Some (Finite 1000) \<rparr>)"
      "Key ''k''" 0 42 1001]
    ttl_expiry [of "LRUCache_new \<lparr> opt_maxSize = Some 10, opt_ttl = Some (Finite 1000) \<rparr> :: (string, int) LRUCache"
      1000 "LRUCache_set 0 (Key ''k'') (42::int) (LRUCache_new \<lparr> opt_maxSize = Some 10, opt_ttl = Some (Finite 1000) \<rparr>)"
      "Key ''k''" 0 42 1000]
  by (simp add: LRUCache_new_def)

text \<open>
  Claim C7: \<open>size\<close> counts what the map holds, not what is live. \<open>size\<close> reads no clock:
  once the clock is past the expiry of an entry written by \<open>set(k, v)\<close>, and before any
  call touches \<open>k\<close>, the entry is still in the map and still counted, while \<open>get(k)\<close> and
  \<open>has(k)\<close> report absent; either call then removes it and \<open>size\<close> drops by one.
\<close>

theorem size_counts_expired_entries:
  assumes "ttl c = Finite d" and "T + d < t"
  shows "Map_has (cache (LRUCache_set T k v c)) k
       \<and> 0 < LRUCache_size (LRUCache_set T k v c)
       \<and> fst (LRUCache_get t k (LRUCache_set T k v c)) = None
       \<and> fst (LRUCache_has t k (LRUCache_set T k v c)) = False
       \<and> LRUCache_size (LRUCache_set T k v c)
           = Suc (LRUCache_size (snd (LRUCache_get t k (LRUCache_set T k v c))))
       \<and> LRUCache_size (LRUCache_set T k v c)
           = Suc (LRUCache_size (snd (LRUCache_has t k (LRUCache_set T k v c))))"
proof -
  let ?s = "LRUCache_set T k v c"
  have stored: "Map_get (cache ?s) k = Some \<lparr> entry_value = v, expiresAt = Finite (T + d) \<rparr>"
    using assms(1) by (simp add: LRUCache_set_stored)
  have ne: "cache ?s \<noteq> []" by (simp add: LRUCache_set_cache)
  have 1: "Map_has (cache ?s) k" by (simp add: Map_has_get stored)
  have 2: "0 < LRUCache_size ?s" using ne by (simp add: LRUCache_size_def Map_size_def)
  have 3: "LRUCache_get t k ?s = (None, ?s\<lparr>cache := butlast (cache ?s)\<rparr>)"
    using assms(2) by (simp add: LRUCache_get_def stored Map_delete_def LRUCache_set_once)
  have 4: "LRUCache_has t k ?s = (False, ?s\<lparr>cache := butlast (cache ?s)\<rparr>)"
    using assms(2) by (simp add: LRUCache_has_def stored Map_delete_def LRUCache_set_once)
  have 5: "LRUCache_size ?s = Suc (LRUCache_size (?s\<lparr>cache := butlast (cache ?s)\<rparr>))"
    using ne by (simp add: LRUCache_size_def Map_size_def)
  from 1 2 3 4 5 show ?thesis by simp
qed

theorem size_counts_expired_entries_witness:
  "ttl (LRUCache_new \<lparr> opt_maxSize = Some 10, opt_ttl = Some (Finite 1000) \<rparr> :: (string, int) LRUCache) = Finite 1000
   \<and> (0::int) + 1000 < 1001
   \<and> LRUCache_size (LRUCache_set 0 (Key ''k'') (42::int)
        (LRUCache_new \<lparr> opt_maxSize = Some 10, opt_ttl = Some (Finite 1000) \<rparr>)) = 1
   \<and> fst (LRUCache_get 1001 (Key ''k'') (LRUCache_set 0 (Key ''k'') (42::int)
        (LRUCache_new \<lparr> opt_maxSize = Some 10, opt_ttl = Some (Finite 1000) \<rparr>))) = None
   \<and> LRUCache_size (snd (LRUCache_get 1001 (Key ''k'') (LRUCache_set 0 (Key ''k'') (42::int)
        (LRUCache_new \<lparr> opt_maxSize = Some 10, opt_ttl = Some (Finite 1000) \<rparr>)))) = 0"
  using size_counts_expired_entries
    [of "LRUCache_new \<lparr> opt_maxSize = Some 10, opt_ttl = Some (Finite 1000) \<rparr> :: (string, int) LRUCache"
        1000 0 1001 "Key ''k''" 42]
  by (simp add: cache_defs)

subsection \<open>\<open>delete\<close>\<close>

text \<open>
  Claim C6 says that \<open>delete\<close> returns false for a key whose entry has expired. The code
  does not look at the expiry: an expired entry that no \<open>get\<close> or \<open>has\<close> has swept yet is
  still in the map, and \<open>delete\<close> removes it and returns true.
\<close>

theorem delete_expired_unswept_counterexample:
  "Map_get (cache (LRUCache_set 0 (Key ''k'') (42::int)
       (LRUCache_new \<lparr> opt_maxSize = Some 10, opt_ttl = Some (Finite 1000) \<rparr>))) (Key ''k'')
     = Some \<lparr> entry_value = 42, expiresAt = Finite 1000 \<rparr>
   \<and> now_gt 2000 (Finite 1000)
   \<and> LRUCache_delete (Key ''k'') (LRUCache_set 0 (Key ''k'') (42::int)
       (LRUCache_new \<lparr> opt_maxSize = Some 10, opt_ttl = Some (Finite 1000) \<rparr>))
     = (True, LRUCache_new \<lparr> opt_maxSize = Some 10, opt_ttl = Some (Finite 1000) \<rparr>)"
  by (simp add: cache_defs)

text \<open>
  Claim C6 as amended: \<open>delete(key)\<close> returns whether the map holds an entry for the key,
  expired or not, and the key is gone afterwards. It returns false, and leaves the cache
  as it was, when the map holds no entry for the key; that is the case after a \<open>get\<close> or
  \<open>has\<close> of the key reported absent, since those calls sweep an expired entry. On an
  expired entry that has not been swept it returns true.
\<close>

theorem delete_semantics:
  "fst (LRUCache_delete k c) = Map_has (cache c) k
   \<and> \<not> Map_has (cache (snd (LRUCache_delete k c))) k
   \<and> (\<not> Map_has (cache c) k \<longrightarrow> LRUCache_delete k c = (False, c))
   \<and> (fst (LRUCache_get t k c) = None \<longrightarrow>
         fst (LRUCache_delete k (snd (LRUCache_get t k c))) = False)
   \<and> (\<not> fst (LRUCache_has t k c) \<longrightarrow>
         fst (LRUCache_delete k (snd (LRUCache_has t k c))) = False)
   \<and> (Map_get (cache c) k = Some e \<and> now_gt t (expiresAt e) \<longrightarrow>
         fst (LRUCache_delete k c) = True)"
proof -
  have 1: "fst (LRUCache_delete k c) = Map_has (cache c) k"
    by (simp add: LRUCache_delete_def Map_delete_def)
  have 2: "\<not> Map_has (cache (snd (LRUCache_delete k c))) k"
    by (simp add: LRUCache_delete_def Map_delete_def)
  have 3: "\<not> Map_has (cache c) k \<longrightarrow> LRUCache_delete k c = (False, c)"
    by (simp add: LRUCache_delete_def Map_delete_def Map_remove_absent)
  have 4: "fst (LRUCache_get t k c) = None \<longrightarrow>
         fst (LRUCache_delete k (snd (LRUCache_get t k c))) = False"
    by (simp add: LRUCache_get_def LRUCache_delete_def Map_delete_def Map_has_get
        split: option.splits)
  have 5: "\<not> fst (LRUCache_has t k c) \<longrightarrow>
         fst (LRUCache_delete k (snd (LRUCache_has t k c))) = False"
    by (simp add: LRUCache_has_def LRUCache_delete_def Map_delete_def Map_has_get
        split: option.splits)
  have 6: "Map_get (cache c) k = Some e \<and> now_gt t (expiresAt e) \<longrightarrow>
         fst (LRUCache_delete k c) = True"
    by (simp add: 1 Map_has_get)
  from 1 2 3 4 5 6 show ?thesis by blast
qed

theorem delete_semantics_witness:
  "\<not> Map_has (cache (LRUCache_new \<lparr> opt_maxSize = Some 10, opt_ttl = Some (Finite 1000) \<rparr>
         :: (string, int) LRUCache)) (Key ''k'')
   \<and> LRUCache_delete (Key ''k'')
        (LRUCache_new \<lparr> opt_maxSize = Some 10, opt_ttl = Some (Finite 1000) \<rparr>
           :: (string, int) LRUCache)
      = (False, LRUCache_new \<lparr> opt_maxSize = Some 10, opt_ttl = Some (Finite 1000) \<rparr>)
   \<and> fst (LRUCache_get 2000 (Key ''k'') (LRUCache_set 0 (Key ''k'') (42::int)
        (LRUCache_new \<lparr> opt_maxSize = Some 10, opt_ttl = Some (Finite 1000) \<rparr>))) = None
   \<and> fst (LRUCache_delete (Key ''k'')
        (snd (LRUCache_get 2000 (Key ''k'') (LRUCache_set 0 (Key ''k'') (42::int)
          (LRUCache_new \<lparr> opt_maxSize = Some 10, opt_ttl = Some (Finite 1000) \<rparr>))))) = False
   \<and> \<not> fst (LRUCache_has 2000 (Key ''k'') (LRUCache_set 0 (Key ''k'') (42::int)
        (LRUCache_new \<lparr> opt_maxSize = Some 10, opt_ttl = Some (Finite 1000) \<rparr>)))
   \<and> fst (LRUCache_delete (Key ''k'')
        (snd (LRUCache_has 2000 (Key ''k'') (LRUCache_set 0 (Key ''k'') (42::int)
          (LRUCache_new \<lparr> opt_maxSize = Some 10, opt_ttl = Some (Finite 1000) \<rparr>))))) = False
   \<and> Map_get (cache (LRUCache_set 0 (Key ''k'') (42::int)
        (LRUCache_new \<lparr> opt_maxSize = Some 10, opt_ttl = Some (Finite 1000) \<rparr>))) (Key ''k'')
      = Some \<lparr> entry_value = 42, expiresAt = Finite 1000 \<rparr>
   \<and> now_gt 2000 (expiresAt \<lparr> entry_value = 42::int, expiresAt = Finite 1000 \<rparr>)
   \<and> fst (LRUCache_delete (Key ''k'') (LRUCache_set 0 (Key ''k'') (42::int)
        (LRUCache_new \<lparr> opt_maxSize = Some 10, opt_ttl = Some (Finite 1000) \<rparr>))) = True"
  using delete_semantics
      [of "Key ''k''" "LRUCache_new \<lparr> opt_maxSize = Some 10, opt_ttl = Some (Finite 1000) \<rparr>
             :: (string, int) LRUCache" 2000 "\<lparr> entry_value = 42, expiresAt = Finite 1000 \<rparr>"]
    delete_semantics
      [of "Key ''k''" "LRUCache_set 0 (Key ''k'') (42::int)
             (LRUCache_new \<lparr> opt_maxSize = Some 10, opt_ttl = Some (Finite 1000) \<rparr>)"
          2000 "\<lparr> entry_value = 42, expiresAt = Finite 1000 \<rparr>"]
  by (simp add: cache_defs)

subsection \<open>What \<open>set\<close> stores\<close>




subsection \<open>The font resolver's cache\<close>

text \<open>
  Claim C8: the font resolver's key is family, weight and style joined by colons, as in
  \<open>Inter:700:normal\<close>; \<open>loadGoogleFont\<close> builds it after filling in the defaults 400 and
  \<open>normal\<close>; and the shared cache is constructed empty with capacity 30 and a time to
  live of 30 minutes, 1800000 milliseconds.
\<close>

theorem font_cache_key_and_parameters:
  "fontCacheKey family weight style = family @ '':'' @ number_toString weight @ '':'' @ style
   \<and> fontCacheKey ''Inter'' 700 ''normal'' = ''Inter:700:normal''
   \<and> loadGoogleFont_key ''Inter'' \<lparr> opt_weight = Some 700, opt_style = None \<rparr> = ''Inter:700:normal''
   \<and> loadGoogleFont_key ''Roboto Mono'' \<lparr> opt_weight = None, opt_style = Some ''italic'' \<rparr>
       = ''Roboto Mono:400:italic''
   \<and> maxSize (fontCache :: (string, 'font) LRUCache) = 30
   \<and> ttl (fontCache :: (string, 'font) LRUCache) = Finite 1800000
   \<and> cache (fontCache :: (string, 'font) LRUCache) = []"
proof -
  have 1: "fontCacheKey family weight style = family @ '':'' @ number_toString weight @ '':'' @ style"
    by (simp add: fontCacheKey_def)
  have 2: "fontCacheKey ''Inter'' 700 ''normal'' = ''Inter:700:normal''"
    by code_simp
  have 3: "loadGoogleFont_key ''Inter'' \<lparr> opt_weight = Some 700, opt_style = None \<rparr> = ''Inter:700:normal''"
    by code_simp
  have 4: "loadGoogleFont_key ''Roboto Mono'' \<lparr> opt_weight = None, opt_style = Some ''italic'' \<rparr>
       = ''Roboto Mono:400:italic''"
    by code_simp
  have 5: "maxSize (fontCache :: (string, 'font) LRUCache) = 30
   \<and> ttl (fontCache :: (string, 'font) LRUCache) = Finite 1800000
   \<and> cache (fontCache :: (string, 'font) LRUCache) = []"
    by (simp add: fontCache_def LRUCache_new_def)
  from 1 2 3 4 5 show ?thesis by blast
qed

end
